theory Spec2Isabelle
  imports Main
begin

section \<open>Strings of the source\<close>

text \<open>
  A JavaScript string is modelled as a \<^typ>\<open>string\<close>: its code units, restricted to the
  range 0..255 that a \<^typ>\<open>char\<close> holds. Equality is equality of the code units, as
  \<^verbatim>\<open>===\<close> on strings is.
\<close>

definition is_ws :: "char \<Rightarrow> bool" where
  \<comment> \<open>WhiteSpace and LineTerminator of ECMAScript, as far as they lie below 256:
      TAB, LF, VT, FF, CR, SP, NBSP.\<close>
  "is_ws c = (c \<in> set [CHR 0x09, CHR 0x0A, CHR 0x0B, CHR 0x0C, CHR 0x0D, CHR 0x20, CHR 0xA0])"

definition trim_start :: "string \<Rightarrow> string" where
  "trim_start s = dropWhile is_ws s"

definition trim :: "string \<Rightarrow> string" where
  \<comment> \<open>\<^verbatim>\<open>String.prototype.trim\<close>\<close>
  "trim s = rev (dropWhile is_ws (rev (dropWhile is_ws s)))"

fun split_acc :: "char \<Rightarrow> string \<Rightarrow> string \<Rightarrow> string list" where
  "split_acc sep acc [] = [rev acc]"
| "split_acc sep acc (c # cs) =
     (if c = sep then rev acc # split_acc sep [] cs else split_acc sep (c # acc) cs)"

definition split :: "char \<Rightarrow> string \<Rightarrow> string list" where
  \<comment> \<open>\<^verbatim>\<open>s.split(sep)\<close> for a separator of one character: \<^verbatim>\<open>"".split(",")\<close> is
      \<^verbatim>\<open>[""]\<close>, \<^verbatim>\<open>"a,,b".split(",")\<close> is \<^verbatim>\<open>["a", "", "b"]\<close>.\<close>
  "split sep s = split_acc sep [] s"

fun join :: "string \<Rightarrow> string list \<Rightarrow> string" where
  \<comment> \<open>\<^verbatim>\<open>parts.join(sep)\<close>\<close>
  "join sep [] = []"
| "join sep [p] = p"
| "join sep (p # q # ps) = p @ sep @ join sep (q # ps)"

section \<open>Regular expressions: \<^verbatim>\<open>IP_REGEX\<close>\<close>

text \<open>
  The fragment of regular expressions that \<^verbatim>\<open>IP_REGEX\<close> uses: character classes,
  alternation, sequence, \<^verbatim>\<open>?\<close> and bounded repetition \<^verbatim>\<open>{n}\<close>, \<^verbatim>\<open>{n,m}\<close>.
  A class lists its characters.
\<close>

datatype rexp = Eps | Cls "char list" | Alt rexp rexp | Seq rexp rexp | Opt rexp

fun times_re :: "nat \<Rightarrow> rexp \<Rightarrow> rexp" where
  "times_re 0 r = Eps"
| "times_re (Suc n) r = Seq r (times_re n r)"

fun upto_re :: "nat \<Rightarrow> rexp \<Rightarrow> rexp" where
  "upto_re 0 r = Eps"
| "upto_re (Suc n) r = Opt (Seq r (upto_re n r))"

definition rep :: "nat \<Rightarrow> nat \<Rightarrow> rexp \<Rightarrow> rexp" where
  \<comment> \<open>\<^verbatim>\<open>r{lo,hi}\<close>; \<^verbatim>\<open>r{n}\<close> is \<open>rep n n r\<close>\<close>
  "rep lo hi r = Seq (times_re lo r) (upto_re (hi - lo) r)"

text \<open>
  Matching with a continuation, the way ECMAScript defines it: \<open>matches r s k\<close> holds when
  \<open>r\<close> matches a prefix of \<open>s\<close> and the continuation \<open>k\<close> accepts the rest, trying the
  alternatives in turn.
\<close>

fun matches :: "rexp \<Rightarrow> string \<Rightarrow> (string \<Rightarrow> bool) \<Rightarrow> bool" where
  "matches Eps s k = k s"
| "matches (Cls cs) s k = (case s of [] \<Rightarrow> False | c # t \<Rightarrow> c \<in> set cs \<and> k t)"
| "matches (Alt a b) s k = (matches a s k \<or> matches b s k)"
| "matches (Seq a b) s k = matches a s (\<lambda>t. matches b t k)"
| "matches (Opt a) s k = (matches a s k \<or> k s)"

definition test :: "rexp \<Rightarrow> string \<Rightarrow> bool" where
  \<comment> \<open>\<^verbatim>\<open>/^r$/.test(s)\<close>: the match starts at the start and the rest must be empty\<close>
  "test r s = matches r s (\<lambda>t. t = [])"

definition lit :: "char \<Rightarrow> rexp" where
  "lit c = Cls [c]"

definition digit :: rexp where
  \<comment> \<open>\<^verbatim>\<open>\d\<close>\<close>
  "digit = Cls ''0123456789''"

definition hexdig :: rexp where
  \<comment> \<open>\<^verbatim>\<open>[0-9a-fA-F]\<close>\<close>
  "hexdig = Cls ''0123456789abcdefABCDEF''"

definition octet_re :: rexp where
  \<comment> \<open>\<^verbatim>\<open>(25[0-5]|2[0-4]\d|1?\d{1,2})\<close>\<close>
  "octet_re =
     Alt (Seq (lit CHR ''2'') (Seq (lit CHR ''5'') (Cls ''012345'')))
    (Alt (Seq (lit CHR ''2'') (Seq (Cls ''01234'') digit))
         (Seq (Opt (lit CHR ''1'')) (rep 1 2 digit)))"

definition ipv4_re :: rexp where
  \<comment> \<open>\<^verbatim>\<open>/^(25[0-5]|2[0-4]\d|1?\d{1,2})(\.(25[0-5]|2[0-4]\d|1?\d{1,2})){3}$/\<close>\<close>
  "ipv4_re = Seq octet_re (rep 3 3 (Seq (lit CHR ''.'') octet_re))"

definition group_re :: rexp where
  \<comment> \<open>\<^verbatim>\<open>[0-9a-fA-F]{1,4}\<close>\<close>
  "group_re = rep 1 4 hexdig"

definition ipv6_re :: rexp where
  \<comment> \<open>\<^verbatim>\<open>/^(([0-9a-fA-F]{1,4}:){7}[0-9a-fA-F]{1,4}|::1)$/\<close>\<close>
  "ipv6_re =
     Alt (Seq (rep 7 7 (Seq group_re (lit CHR '':''))) group_re)
         (Seq (lit CHR '':'') (Seq (lit CHR '':'') (lit CHR ''1'')))"

section \<open>Data model\<close>

text \<open>
  The record the lookup provider returns, with the fields the program reads; a field the
  provider leaves out is \<open>None\<close>.
\<close>

record geo_record =
  g_ip :: "string option"
  city :: "string option"
  region :: "string option"
  country :: "string option"
  loc :: "string option"
  org :: "string option"

text \<open>A history entry \<^verbatim>\<open>{ ip: query, data, when }\<close>.\<close>

record entry =
  ip :: string
  data :: geo_record
  whenISO :: string

text \<open>
  The state of \<^verbatim>\<open>HomeScreen\<close>: the five \<^verbatim>\<open>useState\<close> cells and the slot
  \<^verbatim>\<open>ipHistory_v1\<close> of \<^verbatim>\<open>localStorage\<close>. The slot is kept as the sequence whose JSON text
  was written last (\<open>None\<close> once the key is removed). \<^verbatim>\<open>selectedForDelete\<close> is an object
  keyed by index, \<^verbatim>\<open>{}\<close> being the empty map.
\<close>

record home =
  geo :: "geo_record option"
  search :: string
  error :: string
  history :: "entry list"
  selectedForDelete :: "nat \<rightharpoonup> bool"
  stored :: "entry list option"

datatype address_class = IPv4 | IPv6 | Invalid

text \<open>
  What one \<^verbatim>\<open>fetch\<close> of \<^verbatim>\<open>fetchGeoFor\<close> comes to: the promise rejects, the response is
  not \<^verbatim>\<open>ok\<close>, reading the body as JSON rejects, or the body is a record.
\<close>

datatype fetch_outcome = Rejected | NotOk | BadBody | Body geo_record

section \<open>History updates\<close>

definition recordLookup :: "entry list \<Rightarrow> string \<Rightarrow> geo_record \<Rightarrow> string \<Rightarrow> entry list" where
  \<comment> \<open>the updater passed to \<^verbatim>\<open>setHistory\<close> in \<^verbatim>\<open>fetchGeoFor\<close>:
      \<^verbatim>\<open>[entry, ...prev.filter((h) => h.ip !== query)].slice(0, 50)\<close>\<close>
  "recordLookup prev query d now =
     take 50 (\<lparr>ip = query, data = d, whenISO = now\<rparr> # filter (\<lambda>h. ip h \<noteq> query) prev)"

fun recordLookups :: "entry list \<Rightarrow> (string \<times> geo_record \<times> string) list \<Rightarrow> entry list" where
  \<comment> \<open>a sequence of calls, each on the result of the one before\<close>
  "recordLookups prev [] = prev"
| "recordLookups prev ((query, d, now) # calls) = recordLookups (recordLookup prev query d now) calls"

definition truthy :: "bool option \<Rightarrow> bool" where
  \<comment> \<open>\<^verbatim>\<open>selectedForDelete[idx]\<close> read as a condition: \<^verbatim>\<open>undefined\<close> is falsy\<close>
  "truthy v = (v = Some True)"

fun filter_idx :: "(nat \<Rightarrow> bool) \<Rightarrow> nat \<Rightarrow> 'a list \<Rightarrow> 'a list" where
  \<comment> \<open>\<^verbatim>\<open>xs.filter((_, idx) => p(idx))\<close>, the first element having index \<open>i\<close>\<close>
  "filter_idx p i [] = []"
| "filter_idx p i (x # xs) = (if p i then x # filter_idx p (Suc i) xs else filter_idx p (Suc i) xs)"

section \<open>The controller\<close>

definition lookup_url :: "string \<Rightarrow> string" where
  "lookup_url query =
     (if query = ''geo'' then ''https://ipinfo.io/geo'' else ''https://ipinfo.io/'' @ query @ ''/geo'')"

definition fetchGeoFor_dispatch :: "home \<Rightarrow> string \<Rightarrow> home" where
  \<comment> \<open>\<^verbatim>\<open>fetchGeoFor(query)\<close> up to its first \<^verbatim>\<open>await\<close>: the error is reset and the
      request for \<open>lookup_url query\<close> leaves\<close>
  "fetchGeoFor_dispatch s query = s\<lparr>error := ''''\<rparr>"

definition fetchGeoFor_settle :: "home \<Rightarrow> string \<Rightarrow> string \<Rightarrow> fetch_outcome \<Rightarrow> home" where
  \<comment> \<open>the rest of \<^verbatim>\<open>fetchGeoFor(query)\<close>, run when its request settles, at time \<open>now\<close>
      (\<^verbatim>\<open>new Date().toISOString()\<close>)\<close>
  "fetchGeoFor_settle s query now r =
     (case r of
        Body d \<Rightarrow>
          (let s1 = s\<lparr>geo := Some d\<rparr> in
           if query \<noteq> ''geo'' then
             (let deduped = recordLookup (history s1) query d now in
              s1\<lparr>history := deduped, stored := Some deduped\<rparr>)
           else s1)
      | _ \<Rightarrow> s\<lparr>error := ''Unable to fetch geolocation for the provided IP.''\<rparr>)"

definition classify :: "string \<Rightarrow> address_class" where
  \<comment> \<open>the validation of \<^verbatim>\<open>handleSearch\<close>: trim, reject the empty text, then the two
      tests of \<^verbatim>\<open>IP_REGEX\<close>\<close>
  "classify text =
     (let ip = trim text in
      if ip = [] then Invalid
      else if test ipv4_re ip then IPv4
      else if test ipv6_re ip then IPv6
      else Invalid)"

definition handleSearch :: "home \<Rightarrow> home \<times> string option" where
  \<comment> \<open>the new state, and the query dispatched to \<^verbatim>\<open>fetchGeoFor\<close> if there is one\<close>
  "handleSearch s =
     (let s0 = s\<lparr>error := ''''\<rparr>; ip = trim (search s) in
      if ip = [] then (s0\<lparr>error := ''Please enter an IP address.''\<rparr>, None)
      else if \<not> test ipv4_re ip \<and> \<not> test ipv6_re ip then
        (s0\<lparr>error := ''Please enter a valid IPv4 or IPv6 address.''\<rparr>, None)
      else (fetchGeoFor_dispatch s0 ip, Some ip))"

definition handleClear :: "home \<Rightarrow> home \<times> string option" where
  "handleClear s = (fetchGeoFor_dispatch (s\<lparr>search := '''', error := ''''\<rparr>) ''geo'', Some ''geo'')"

definition handleHistoryClick :: "home \<Rightarrow> string \<Rightarrow> home \<times> string option" where
  "handleHistoryClick s i = (fetchGeoFor_dispatch (s\<lparr>search := i\<rparr>) i, Some i)"

definition toggleSelect :: "home \<Rightarrow> nat \<Rightarrow> home" where
  \<comment> \<open>\<^verbatim>\<open>{ ...prev, [idx]: !prev[idx] }\<close>\<close>
  "toggleSelect s idx =
     s\<lparr>selectedForDelete := (selectedForDelete s)(idx \<mapsto> \<not> truthy (selectedForDelete s idx))\<rparr>"

definition deleteSelected :: "home \<Rightarrow> home" where
  "deleteSelected s =
     (let remaining = filter_idx (\<lambda>idx. \<not> truthy (selectedForDelete s idx)) 0 (history s) in
      s\<lparr>history := remaining, stored := Some remaining, selectedForDelete := Map.empty\<rparr>)"

definition clearAll :: "home \<Rightarrow> home" where
  \<comment> \<open>the \<^verbatim>\<open>onClick\<close> of the Clear All button\<close>
  "clearAll s = s\<lparr>history := [], stored := None\<rparr>"

section \<open>What the two patterns accept\<close>

text \<open>The language of a pattern: the strings it matches from end to end.\<close>

fun lang :: "rexp \<Rightarrow> string set" where
  "lang Eps = {[]}"
| "lang (Cls cs) = {[c] | c. c \<in> set cs}"
| "lang (Alt a b) = lang a \<union> lang b"
| "lang (Seq a b) = {u @ v | u v. u \<in> lang a \<and> v \<in> lang b}"
| "lang (Opt a) = insert [] (lang a)"

definition is_digit :: "char \<Rightarrow> bool" where
  "is_digit c = (c \<in> set ''0123456789'')"

definition digit_val :: "char \<Rightarrow> nat" where
  "digit_val c = of_char c - 48"

definition dec :: "string \<Rightarrow> nat" where
  \<comment> \<open>the value of a string of digits read in base ten\<close>
  "dec w = foldl (\<lambda>n c. 10 * n + digit_val c) 0 w"

definition octet_ok :: "string \<Rightarrow> bool" where
  \<comment> \<open>what \<open>octet_re\<close> accepts, read as a number: one or two digits, whatever they are, or
      three digits with a value from 100 to 255\<close>
  "octet_ok w =
     (list_all is_digit w \<and>
      (length w = 1 \<or> length w = 2 \<or> (length w = 3 \<and> 100 \<le> dec w \<and> dec w \<le> 255)))"

definition dotted_quad :: "(string \<Rightarrow> bool) \<Rightarrow> string \<Rightarrow> bool" where
  \<comment> \<open>four parts separated by dots, each of them a \<open>P\<close>\<close>
  "dotted_quad P s = (let ps = split CHR ''.'' s in length ps = 4 \<and> list_all P ps)"

definition is_hex :: "char \<Rightarrow> bool" where
  "is_hex c = (c \<in> set ''0123456789abcdefABCDEF'')"

definition hex_group :: "string \<Rightarrow> bool" where
  "hex_group g = (1 \<le> length g \<and> length g \<le> 4 \<and> list_all is_hex g)"

definition full_ipv6 :: "string \<Rightarrow> bool" where
  \<comment> \<open>the full form: eight groups of one to four hexadecimal digits, separated by colons\<close>
  "full_ipv6 s = (let gs = split CHR '':'' s in length gs = 8 \<and> list_all hex_group gs)"

text \<open>
  The specification's wording of an IPv4 octet, for comparison with \<open>octet_ok\<close>: a decimal
  numeral with a value in [0,255]. It is read in two ways: with leading zeros allowed and
  read as decimal (\<open>spec_octet\<close>), and with no leading zero (\<open>spec_octet_strict\<close>).
\<close>

definition spec_octet :: "string \<Rightarrow> bool" where
  "spec_octet w = (w \<noteq> [] \<and> list_all is_digit w \<and> dec w \<le> 255)"

definition spec_octet_strict :: "string \<Rightarrow> bool" where
  "spec_octet_strict w = (spec_octet w \<and> (length w = 1 \<or> hd w \<noteq> CHR ''0''))"

section \<open>Loading the history\<close>

text \<open>
  The initializer of the \<^verbatim>\<open>history\<close> cell:
  \<^verbatim>\<open>try { return JSON.parse(localStorage.getItem(STORAGE_KEY) || "[]"); } catch { return []; }\<close>
  Its result is a JSON value. \<^verbatim>\<open>JSON.parse\<close> belongs to the platform and is a parameter:
  it gives \<open>None\<close> where it throws. Reading the slot gives \<^verbatim>\<open>null\<close> for a missing key, the
  stored text, or throws where storage is blocked.
\<close>

datatype json =
  JNull | JBool bool | JNum string | JStr string | JArr "json list" | JObj "(string \<times> json) list"



section \<open>The map effect\<close>

text \<open>
  A Number that \<^verbatim>\<open>parseFloat\<close> returns: \<open>NaN\<close>, or \<open>Num l\<close>, the value of the decimal
  literal \<open>l\<close> it has read. The value is kept as its literal; rounding to a double is not
  modelled, and nothing below computes with the value.
\<close>

datatype jsnum = NaN | Num string

definition exponent_part :: "string \<Rightarrow> string" where
  \<comment> \<open>the longest prefix that is an ExponentPart (\<^verbatim>\<open>e\<close> or \<^verbatim>\<open>E\<close>, an optional sign,
      digits), or nothing\<close>
  "exponent_part r =
     (case r of
        [] \<Rightarrow> []
      | e # r1 \<Rightarrow>
          if e \<in> set ''eE'' then
            (let sg = (case r1 of [] \<Rightarrow> [] | c # _ \<Rightarrow> if c \<in> set ''+-'' then [c] else []);
                 ds = takeWhile is_digit (drop (length sg) r1)
             in if ds = [] then [] else e # sg @ ds)
          else [])"

definition unsigned_literal :: "string \<Rightarrow> string option" where
  \<comment> \<open>the longest prefix that is a StrUnsignedDecimalLiteral: \<^verbatim>\<open>Infinity\<close>, digits with an
      optional fraction and exponent, or a fraction that starts with the dot\<close>
  "unsigned_literal r =
     (if take 8 r = ''Infinity'' then Some ''Infinity''
      else
        (let ds = takeWhile is_digit r; r1 = dropWhile is_digit r in
         case r1 of
           [] \<Rightarrow> if ds = [] then None else Some ds
         | c # r2 \<Rightarrow>
             if c = CHR ''.'' then
               (let fs = takeWhile is_digit r2; r3 = dropWhile is_digit r2 in
                if ds = [] \<and> fs = [] then None
                else Some (ds @ ''.'' @ fs @ exponent_part r3))
             else if ds = [] then None
             else Some (ds @ exponent_part r1)))"

definition parseFloat :: "string \<Rightarrow> jsnum" where
  \<comment> \<open>\<^verbatim>\<open>parseFloat(s)\<close>: leading white space is skipped, then the longest prefix that is a
      signed decimal literal is read; \<open>NaN\<close> when there is none\<close>
  "parseFloat s =
     (let t = trim_start s;
          sg = (case t of [] \<Rightarrow> [] | c # _ \<Rightarrow> if c \<in> set ''+-'' then [c] else [])
      in case unsigned_literal (drop (length sg) t) of
           None \<Rightarrow> NaN
         | Some l \<Rightarrow> Num (sg @ l))"

type_synonym latlng = "jsnum \<times> jsnum"

text \<open>
  The Leaflet objects the effect commands: the marker behind \<^verbatim>\<open>markerRef\<close>, and the map
  behind \<^verbatim>\<open>mapInstanceRef\<close> with its view, the circles added to it and its field
  \<^verbatim>\<open>_precisionCircle\<close>. A circle is its centre and its radius in metres.
\<close>

record marker =
  position :: latlng
  popup :: "string option"
  popup_open :: bool

record leaflet_map =
  center :: latlng
  zoom :: nat
  circles :: "(latlng \<times> nat) list"
  precisionCircle :: "(latlng \<times> nat) option"

record map_refs =
  mapInstance :: "leaflet_map option"
  markerRef :: "marker option"

definition present :: "string option \<Rightarrow> bool" where
  \<comment> \<open>a field read as a condition: absent and empty are falsy\<close>
  "present v = (case v of None \<Rightarrow> False | Some t \<Rightarrow> t \<noteq> [])"

definition or_empty :: "string option \<Rightarrow> string" where
  \<comment> \<open>\<^verbatim>\<open>v || ""\<close>\<close>
  "or_empty v = (case v of None \<Rightarrow> [] | Some t \<Rightarrow> t)"

definition popup_line :: "string \<Rightarrow> string option \<Rightarrow> string list" where
  "popup_line label v =
     (if present v then [''<strong>'' @ label @ '':</strong> '' @ or_empty v] else [])"

definition popup_html :: "geo_record \<Rightarrow> string" where
  "popup_html g =
     join ''<br/>''
       (popup_line ''IP'' (g_ip g) @ popup_line ''City'' (city g) @
        popup_line ''Region'' (region g) @ popup_line ''Country'' (country g) @
        popup_line ''Org'' (org g))"

definition loc_parts :: "geo_record \<Rightarrow> jsnum list" where
  \<comment> \<open>\<^verbatim>\<open>(geo.loc || "").split(",").map((v) => parseFloat(v))\<close>\<close>
  "loc_parts g = map parseFloat (split CHR '','' (or_empty (loc g)))"

definition update_map :: "geo_record option \<Rightarrow> map_refs \<Rightarrow> map_refs" where
  \<comment> \<open>the effect that runs when \<^verbatim>\<open>geo\<close> changes\<close>
  "update_map cur refs =
     (case (cur, mapInstance refs) of
        (Some g, Some m) \<Rightarrow>
          (let parts = loc_parts g in
           if length parts \<noteq> 2 \<or> list_ex (\<lambda>n. n = NaN) parts then refs
           else
             (let lat = parts ! 0; lon = parts ! 1;
                  m1 = m\<lparr>center := (lat, lon), zoom := 12\<rparr>;
                  mk = (case markerRef refs of
                          None \<Rightarrow> \<lparr>position = (lat, lon), popup = None, popup_open = False\<rparr>
                        | Some k \<Rightarrow> k\<lparr>position := (lat, lon)\<rparr>);
                  mk1 = mk\<lparr>popup := Some (popup_html g), popup_open := True\<rparr>;
                  m2 = (case precisionCircle m1 of
                          None \<Rightarrow> m1
                        | Some c \<Rightarrow> m1\<lparr>circles := remove1 c (circles m1), precisionCircle := None\<rparr>);
                  c1 = ((lat, lon), 500);
                  m3 = m2\<lparr>circles := circles m2 @ [c1], precisionCircle := Some c1\<rparr>
              in \<lparr>mapInstance = Some m3, markerRef = Some mk1\<rparr>))
      | _ \<Rightarrow> refs)"

section \<open>Values for the worked examples\<close>

definition blank :: geo_record where
  \<comment> \<open>the record \<^verbatim>\<open>{}\<close>\<close>
  "blank = \<lparr>g_ip = None, city = None, region = None, country = None, loc = None, org = None\<rparr>"

definition mount :: "entry list \<Rightarrow> home" where
  \<comment> \<open>the initial values of the \<^verbatim>\<open>useState\<close> cells, over a slot that holds \<open>h\<close>\<close>
  "mount h = \<lparr>geo = None, search = [], error = [], history = h,
              selectedForDelete = Map.empty, stored = Some h\<rparr>"

definition visit :: "string \<Rightarrow> string \<Rightarrow> entry" where
  "visit q t = \<lparr>ip = q, data = blank\<lparr>g_ip := Some q\<rparr>, whenISO = t\<rparr>"

definition fresh_map :: map_refs where
  \<comment> \<open>the map as the first effect creates it (\<^verbatim>\<open>center: [20, 0], zoom: 2\<close>), no marker yet\<close>
  "fresh_map =
     \<lparr>mapInstance = Some \<lparr>center = (Num ''20'', Num ''0''), zoom = 2, circles = [],
                          precisionCircle = None\<rparr>,
      markerRef = None\<rparr>"

section \<open>The history store\<close>

lemma recordLookup_distinct:
  "distinct (map ip prev) \<Longrightarrow> distinct (map ip (recordLookup prev q d now))"
proof -
  assume dp: "distinct (map ip prev)"
  let ?e = "\<lparr>ip = q, data = d, whenISO = now\<rparr>"
  let ?rest = "filter (\<lambda>h. ip h \<noteq> q) prev"
  have "distinct (map ip ?rest)" using dp by (rule distinct_map_filter)
  moreover have "q \<notin> set (map ip ?rest)" by auto
  ultimately have "distinct (map ip (?e # ?rest))" by simp
  then have "distinct (take 50 (map ip (?e # ?rest)))" by (rule distinct_take)
  then show ?thesis by (simp only: recordLookup_def take_map)
qed

lemma recordLookup_length: "length (recordLookup prev q d now) \<le> 50"
  by (simp add: recordLookup_def)

lemma recordLookups_inv:
  "distinct (map ip prev) \<Longrightarrow> length prev \<le> 50 \<Longrightarrow>
   distinct (map ip (recordLookups prev calls)) \<and> length (recordLookups prev calls) \<le> 50"
proof (induction calls arbitrary: prev)
  case Nil
  then show ?case by simp
next
  case (Cons c calls)
  obtain q d now where c: "c = (q, d, now)" by (cases c)
  show ?case unfolding c recordLookups.simps
    by (rule Cons.IH) (simp_all add: recordLookup_distinct Cons.prems recordLookup_length)
qed

text \<open>
  C1. Starting from the empty history, whatever the sequence of \<open>recordLookup\<close> calls, the
  history holds no two entries with the same \<open>ip\<close> (compared as strings, exactly) and at
  most 50 entries.
\<close>

theorem history_invariant:
  "distinct (map ip (recordLookups [] calls)) \<and> length (recordLookups [] calls) \<le> 50"
  by (rule recordLookups_inv) simp_all

lemma recordLookup_Cons:
  "recordLookup prev q d now =
     \<lparr>ip = q, data = d, whenISO = now\<rparr> # take 49 (filter (\<lambda>h. ip h \<noteq> q) prev)"
  by (simp add: recordLookup_def take_Cons')

lemma filter_take_none:
  "(\<And>x. x \<in> set xs \<Longrightarrow> \<not> P x) \<Longrightarrow> filter P (take n xs) = []"
  by (auto simp: filter_empty_conv dest: in_set_takeD)

lemma filter_take_all:
  "(\<And>x. x \<in> set xs \<Longrightarrow> P x) \<Longrightarrow> filter P (take n xs) = take n xs"
  by (auto simp: filter_id_conv dest: in_set_takeD)

text \<open>
  C4. When the \<open>ip\<close> of the new entry already occurs in the history, the result of
  \<open>recordLookup\<close> has exactly one entry for that \<open>ip\<close>, at index 0, with the new data and
  timestamp; the entries for other addresses follow in the order they had (the first 49 of
  them, which is all of them when the history held at most 50 entries).
\<close>

theorem dedup_reorder:
  assumes "q \<in> ip ` set prev"
  shows "recordLookup prev q d now \<noteq> [] \<and>
         recordLookup prev q d now ! 0 = \<lparr>ip = q, data = d, whenISO = now\<rparr> \<and>
         filter (\<lambda>h. ip h = q) (recordLookup prev q d now) = [\<lparr>ip = q, data = d, whenISO = now\<rparr>] \<and>
         filter (\<lambda>h. ip h \<noteq> q) (recordLookup prev q d now) = take 49 (filter (\<lambda>h. ip h \<noteq> q) prev) \<and>
         (length prev \<le> 50 \<longrightarrow>
          filter (\<lambda>h. ip h \<noteq> q) (recordLookup prev q d now) = filter (\<lambda>h. ip h \<noteq> q) prev)"
proof -
  let ?rest = "filter (\<lambda>h. ip h \<noteq> q) prev"
  have eq: "filter (\<lambda>h. ip h = q) (take 49 ?rest) = []"
    by (rule filter_take_none) simp
  have ne: "filter (\<lambda>h. ip h \<noteq> q) (take 49 ?rest) = take 49 ?rest"
    by (rule filter_take_all) simp
  from assms obtain h where h: "h \<in> set prev" "ip h = q" by auto
  then have less: "length ?rest < length prev"
    by (intro length_filter_less[of h]) simp_all
  have all: "length prev \<le> 50 \<Longrightarrow> take 49 ?rest = ?rest"
    using less by simp
  show ?thesis
    unfolding recordLookup_Cons using eq ne all by simp
qed

theorem dedup_reorder_witness:
  "''1.1.1.1'' \<in> ip ` set [visit ''8.8.8.8'' ''t2'', visit ''1.1.1.1'' ''t1''] \<and>
   recordLookup [visit ''8.8.8.8'' ''t2'', visit ''1.1.1.1'' ''t1''] ''1.1.1.1'' blank ''t3'' ! 0
     = \<lparr>ip = ''1.1.1.1'', data = blank, whenISO = ''t3''\<rparr> \<and>
   filter (\<lambda>h. ip h \<noteq> ''1.1.1.1'')
       (recordLookup [visit ''8.8.8.8'' ''t2'', visit ''1.1.1.1'' ''t1''] ''1.1.1.1'' blank ''t3'')
     = [visit ''8.8.8.8'' ''t2'']"
proof -
  have h: "''1.1.1.1'' \<in> ip ` set [visit ''8.8.8.8'' ''t2'', visit ''1.1.1.1'' ''t1'']"
    by (simp add: visit_def)
  show ?thesis
    using h dedup_reorder [OF h, of blank "''t3''"] by (simp add: visit_def)
qed

section \<open>Deleting from the history\<close>

text \<open>
  C9. On a history of three entries with the indices 0 and 2 marked and index 1 not,
  \<open>deleteSelected\<close> leaves the one entry that was at index 1, writes that sequence to the
  slot, and empties the selection.
\<close>

theorem delete_selected_0_2:
  assumes "history s = [a, b, c]"
    and "selectedForDelete s 0 = Some True"
    and "selectedForDelete s 2 = Some True"
    and "\<not> truthy (selectedForDelete s 1)"
  shows "history (deleteSelected s) = [b] \<and>
         stored (deleteSelected s) = Some [b] \<and>
         selectedForDelete (deleteSelected s) = Map.empty"
  using assms by (simp add: deleteSelected_def truthy_def numeral_2_eq_2 Let_def)

theorem delete_selected_0_2_witness:
  "history (deleteSelected (toggleSelect (toggleSelect
      (mount [visit ''1.1.1.1'' ''t3'', visit ''8.8.8.8'' ''t2'', visit ''9.9.9.9'' ''t1'']) 0) 2))
     = [visit ''8.8.8.8'' ''t2''] \<and>
   selectedForDelete (deleteSelected (toggleSelect (toggleSelect
      (mount [visit ''1.1.1.1'' ''t3'', visit ''8.8.8.8'' ''t2'', visit ''9.9.9.9'' ''t1'']) 0) 2))
     = Map.empty"
  using delete_selected_0_2
    [of "toggleSelect (toggleSelect
          (mount [visit ''1.1.1.1'' ''t3'', visit ''8.8.8.8'' ''t2'', visit ''9.9.9.9'' ''t1'']) 0) 2"
        "visit ''1.1.1.1'' ''t3''" "visit ''8.8.8.8'' ''t2''" "visit ''9.9.9.9'' ''t1''"]
  by (simp add: toggleSelect_def mount_def truthy_def)

lemma selection_after_clearAll: "selectedForDelete (clearAll s) = selectedForDelete s"
  by (simp add: clearAll_def)

lemma selection_after_settle:
  "selectedForDelete (fetchGeoFor_settle s q now r) = selectedForDelete s"
  by (cases r) (simp_all add: fetchGeoFor_settle_def Let_def)

text \<open>
  C5. The selection is to be cleared whenever the history is replaced. Here it is not: with
  index 0 marked, Clear All empties the history and leaves the mark; the next lookup puts its
  entry at index 0, under the mark; and Delete Selected then removes that entry, which was
  never selected.
\<close>

theorem selection_outlives_history:
  "selectedForDelete (clearAll (toggleSelect (mount [visit ''1.1.1.1'' ''t1'']) 0)) 0 = Some True \<and>
   history (fetchGeoFor_settle (clearAll (toggleSelect (mount [visit ''1.1.1.1'' ''t1'']) 0))
              ''8.8.8.8'' ''t2'' (Body blank))
     = [\<lparr>ip = ''8.8.8.8'', data = blank, whenISO = ''t2''\<rparr>] \<and>
   selectedForDelete (fetchGeoFor_settle (clearAll (toggleSelect (mount [visit ''1.1.1.1'' ''t1'']) 0))
              ''8.8.8.8'' ''t2'' (Body blank)) 0 = Some True \<and>
   history (deleteSelected (fetchGeoFor_settle (clearAll (toggleSelect (mount [visit ''1.1.1.1'' ''t1'']) 0))
              ''8.8.8.8'' ''t2'' (Body blank))) = []"
proof -
  let ?s = "clearAll (toggleSelect (mount [visit ''1.1.1.1'' ''t1'']) 0)"
  let ?s' = "fetchGeoFor_settle ?s ''8.8.8.8'' ''t2'' (Body blank)"
  have sel: "selectedForDelete ?s 0 = Some True"
    by (simp add: selection_after_clearAll toggleSelect_def mount_def truthy_def)
  have hist: "history ?s' = [\<lparr>ip = ''8.8.8.8'', data = blank, whenISO = ''t2''\<rparr>]"
    by (simp add: fetchGeoFor_settle_def Let_def clearAll_def recordLookup_def)
  have sel': "selectedForDelete ?s' 0 = Some True"
    using sel by (simp only: selection_after_settle)
  have "history (deleteSelected ?s') = []"
    by (simp add: deleteSelected_def Let_def hist sel' truthy_def)
  with sel hist sel' show ?thesis by simp
qed

section \<open>Lookups that settle\<close>

text \<open>
  C2, as the code has it. No request is tagged and no response is dropped: when A is
  dispatched, then B, and the response of A arrives after that of B, the current record is
  the one A returned. The response that arrives last is the one displayed.
\<close>

theorem last_response_wins:
  "geo (fetchGeoFor_settle
         (fetchGeoFor_settle (fetchGeoFor_dispatch (fetchGeoFor_dispatch s a) b) b tb (Body db))
         a ta (Body da)) = Some da"
  by (simp add: fetchGeoFor_settle_def Let_def)

text \<open>
  C2 as stated fails: 1.1.1.1 is dispatched, then 8.8.8.8; the answer for 8.8.8.8 arrives
  first; after the answer for 1.1.1.1 the current record is not the one of 8.8.8.8.
\<close>

theorem last_dispatch_wins_counterexample:
  "geo (fetchGeoFor_settle
         (fetchGeoFor_settle
            (fetchGeoFor_dispatch (fetchGeoFor_dispatch (mount []) ''1.1.1.1'') ''8.8.8.8'')
            ''8.8.8.8'' ''t1'' (Body (blank\<lparr>g_ip := Some ''8.8.8.8''\<rparr>)))
         ''1.1.1.1'' ''t2'' (Body (blank\<lparr>g_ip := Some ''1.1.1.1''\<rparr>)))
     \<noteq> Some (blank\<lparr>g_ip := Some ''8.8.8.8''\<rparr>)"
  by (simp add: fetchGeoFor_settle_def Let_def blank_def)

text \<open>
  C7. When a lookup fails (the request is rejected, the response is not ok, or its body is
  not JSON), the current record and the history stay as they were and the error message is
  set; the next dispatch clears the message, and it is still clear once that lookup has
  succeeded.
\<close>

theorem lookup_failure:
  assumes "r \<in> {Rejected, NotOk, BadBody}"
  shows "geo (fetchGeoFor_settle s q now r) = geo s \<and>
         history (fetchGeoFor_settle s q now r) = history s \<and>
         error (fetchGeoFor_settle s q now r) = ''Unable to fetch geolocation for the provided IP.'' \<and>
         error (fetchGeoFor_dispatch (fetchGeoFor_settle s q now r) q') = [] \<and>
         error (fetchGeoFor_settle (fetchGeoFor_dispatch (fetchGeoFor_settle s q now r) q')
                  q' now' (Body d)) = []"
  using assms by (auto simp: fetchGeoFor_settle_def fetchGeoFor_dispatch_def Let_def)

theorem lookup_failure_witness:
  "NotOk \<in> {Rejected, NotOk, BadBody} \<and>
   geo (fetchGeoFor_settle ((mount [])\<lparr>geo := Some blank\<rparr>) ''8.8.8.8'' ''t1'' NotOk) = Some blank \<and>
   error (fetchGeoFor_settle ((mount [])\<lparr>geo := Some blank\<rparr>) ''8.8.8.8'' ''t1'' NotOk) \<noteq> [] \<and>
   error (fetchGeoFor_settle
            (fetchGeoFor_dispatch
               (fetchGeoFor_settle ((mount [])\<lparr>geo := Some blank\<rparr>) ''8.8.8.8'' ''t1'' NotOk)
               ''1.1.1.1'')
            ''1.1.1.1'' ''t2'' (Body blank)) = []"
  using lookup_failure
    [of NotOk "(mount [])\<lparr>geo := Some blank\<rparr>" "''8.8.8.8''" "''t1''" "''1.1.1.1''" "''t2''" blank]
  by (simp add: mount_def)

section \<open>The matcher and the language of a pattern\<close>

lemma matches_lang: "matches r s k \<longleftrightarrow> (\<exists>u v. s = u @ v \<and> u \<in> lang r \<and> k v)"
proof (induction r arbitrary: s k)
  case Eps
  show ?case by simp
next
  case (Cls cs)
  show ?case
  proof (cases s)
    case Nil
    then show ?thesis by simp
  next
    case (Cons c t)
    have "(\<exists>u v. c # t = u @ v \<and> u \<in> lang (Cls cs) \<and> k v) \<longleftrightarrow> c \<in> set cs \<and> k t"
    proof
      assume "\<exists>u v. c # t = u @ v \<and> u \<in> lang (Cls cs) \<and> k v"
      then show "c \<in> set cs \<and> k t" by auto
    next
      assume "c \<in> set cs \<and> k t"
      then have "c # t = [c] @ t \<and> [c] \<in> lang (Cls cs) \<and> k t" by simp
      then show "\<exists>u v. c # t = u @ v \<and> u \<in> lang (Cls cs) \<and> k v" by blast
    qed
    with Cons show ?thesis by simp
  qed
next
  case (Alt a b)
  show ?case by (auto simp: Alt.IH)
next
  case (Seq a b)
  show ?case
  proof
    assume "matches (Seq a b) s k"
    then obtain u v where 1: "s = u @ v" "u \<in> lang a" "matches b v k"
      by (auto simp: Seq.IH(1))
    then obtain u' v' where 2: "v = u' @ v'" "u' \<in> lang b" "k v'"
      by (auto simp: Seq.IH(2))
    have "s = (u @ u') @ v'" using 1 2 by simp
    moreover have "u @ u' \<in> lang (Seq a b)" using 1 2 by auto
    ultimately show "\<exists>u v. s = u @ v \<and> u \<in> lang (Seq a b) \<and> k v" using 2 by blast
  next
    assume "\<exists>u v. s = u @ v \<and> u \<in> lang (Seq a b) \<and> k v"
    then obtain u1 u2 v where "s = u1 @ (u2 @ v)" "u1 \<in> lang a" "u2 \<in> lang b" "k v"
      by auto
    then show "matches (Seq a b) s k"
      by (auto simp: Seq.IH)
  qed
next
  case (Opt a)
  show ?case by (auto simp: Opt.IH)
qed

lemma test_lang: "test r s \<longleftrightarrow> s \<in> lang r"
  by (simp add: test_def matches_lang)

lemma lang_times: "lang (times_re n r) = {concat ws | ws. length ws = n \<and> set ws \<subseteq> lang r}"
proof (induction n)
  case 0
  show ?case by auto
next
  case (Suc n)
  show ?case
  proof (rule set_eqI, rule iffI)
    fix s assume "s \<in> lang (times_re (Suc n) r)"
    then obtain u ws where "s = u @ concat ws" "u \<in> lang r" "length ws = n" "set ws \<subseteq> lang r"
      by (auto simp: Suc)
    then have "s = concat (u # ws) \<and> length (u # ws) = Suc n \<and> set (u # ws) \<subseteq> lang r"
      by simp
    then show "s \<in> {concat ws | ws. length ws = Suc n \<and> set ws \<subseteq> lang r}" by blast
  next
    fix s assume "s \<in> {concat ws | ws. length ws = Suc n \<and> set ws \<subseteq> lang r}"
    then obtain ws where ws: "s = concat ws" "length ws = Suc n" "set ws \<subseteq> lang r" by auto
    then obtain u us where "ws = u # us" by (cases ws) auto
    with ws show "s \<in> lang (times_re (Suc n) r)"
      by (auto simp: Suc)
  qed
qed

lemma lang_upto: "lang (upto_re n r) = {concat ws | ws. length ws \<le> n \<and> set ws \<subseteq> lang r}"
proof (induction n)
  case 0
  show ?case by auto
next
  case (Suc n)
  show ?case
  proof (rule set_eqI, rule iffI)
    fix s assume "s \<in> lang (upto_re (Suc n) r)"
    then consider "s = []" | u ws where "s = u @ concat ws" "u \<in> lang r" "length ws \<le> n" "set ws \<subseteq> lang r"
      by (auto simp: Suc)
    then show "s \<in> {concat ws | ws. length ws \<le> Suc n \<and> set ws \<subseteq> lang r}"
    proof cases
      case 1
      then have "s = concat [] \<and> length ([]::string list) \<le> Suc n \<and> set [] \<subseteq> lang r" by simp
      then show ?thesis by blast
    next
      case 2
      then have "s = concat (u # ws) \<and> length (u # ws) \<le> Suc n \<and> set (u # ws) \<subseteq> lang r"
        by simp
      then show ?thesis by blast
    qed
  next
    fix s assume "s \<in> {concat ws | ws. length ws \<le> Suc n \<and> set ws \<subseteq> lang r}"
    then obtain ws where ws: "s = concat ws" "length ws \<le> Suc n" "set ws \<subseteq> lang r" by auto
    show "s \<in> lang (upto_re (Suc n) r)"
    proof (cases ws)
      case Nil
      with ws show ?thesis by simp
    next
      case (Cons u us)
      with ws show ?thesis by (auto simp: Suc)
    qed
  qed
qed

lemma lang_rep:
  assumes "lo \<le> hi"
  shows "lang (rep lo hi r) = {concat ws | ws. lo \<le> length ws \<and> length ws \<le> hi \<and> set ws \<subseteq> lang r}"
proof (rule set_eqI, rule iffI)
  fix s assume "s \<in> lang (rep lo hi r)"
  then obtain us vs where u: "s = concat us @ concat vs" "length us = lo" "set us \<subseteq> lang r"
      "length vs \<le> hi - lo" "set vs \<subseteq> lang r"
    by (auto simp: rep_def lang_times lang_upto)
  then have "s = concat (us @ vs) \<and> lo \<le> length (us @ vs) \<and> length (us @ vs) \<le> hi \<and> set (us @ vs) \<subseteq> lang r"
    using assms by simp
  then show "s \<in> {concat ws | ws. lo \<le> length ws \<and> length ws \<le> hi \<and> set ws \<subseteq> lang r}" by blast
next
  fix s assume "s \<in> {concat ws | ws. lo \<le> length ws \<and> length ws \<le> hi \<and> set ws \<subseteq> lang r}"
  then obtain ws where ws: "s = concat ws" "lo \<le> length ws" "length ws \<le> hi" "set ws \<subseteq> lang r" by auto
  let ?us = "take lo ws" and ?vs = "drop lo ws"
  have "s = concat ?us @ concat ?vs" using ws by (simp flip: concat_append)
  moreover have "length ?us = lo" using ws by simp
  moreover have "set ?us \<subseteq> lang r" using ws by (meson set_take_subset subset_trans)
  moreover have "length ?vs \<le> hi - lo" using ws by simp
  moreover have "set ?vs \<subseteq> lang r" using ws by (meson set_drop_subset subset_trans)
  ultimately show "s \<in> lang (rep lo hi r)"
    unfolding rep_def lang.simps lang_times lang_upto by blast
qed

lemma lang_rep_cls:
  assumes "lo \<le> hi"
  shows "lang (rep lo hi (Cls cs)) = {w. lo \<le> length w \<and> length w \<le> hi \<and> set w \<subseteq> set cs}"
proof (rule set_eqI, rule iffI)
  fix s assume "s \<in> lang (rep lo hi (Cls cs))"
  then obtain ws where ws: "s = concat ws" "lo \<le> length ws" "length ws \<le> hi" "set ws \<subseteq> lang (Cls cs)"
    by (auto simp: lang_rep[OF assms])
  have "set ws \<subseteq> lang (Cls cs) \<Longrightarrow> length (concat ws) = length ws \<and> set (concat ws) \<subseteq> set cs"
    by (induction ws) auto
  with ws show "s \<in> {w. lo \<le> length w \<and> length w \<le> hi \<and> set w \<subseteq> set cs}" by simp
next
  fix s assume "s \<in> {w. lo \<le> length w \<and> length w \<le> hi \<and> set w \<subseteq> set cs}"
  then have s: "lo \<le> length s" "length s \<le> hi" "set s \<subseteq> set cs" by auto
  let ?ws = "map (\<lambda>c. [c]) s"
  have "concat ?ws = s" by (induction s) auto
  moreover have "set ?ws \<subseteq> lang (Cls cs)" using s by auto
  ultimately have "s = concat ?ws \<and> lo \<le> length ?ws \<and> length ?ws \<le> hi \<and> set ?ws \<subseteq> lang (Cls cs)"
    using s by simp
  then show "s \<in> lang (rep lo hi (Cls cs))"
    unfolding lang_rep[OF assms] by blast
qed

section \<open>The octet pattern\<close>

lemma is_digit_cases:
  "is_digit c \<longleftrightarrow> c = CHR ''0'' \<or> c = CHR ''1'' \<or> c = CHR ''2'' \<or> c = CHR ''3'' \<or> c = CHR ''4'' \<or>
     c = CHR ''5'' \<or> c = CHR ''6'' \<or> c = CHR ''7'' \<or> c = CHR ''8'' \<or> c = CHR ''9''"
  by (simp add: is_digit_def)

lemma digit_val_simps:
  "digit_val CHR ''0'' = 0" "digit_val CHR ''1'' = 1" "digit_val CHR ''2'' = 2"
  "digit_val CHR ''3'' = 3" "digit_val CHR ''4'' = 4" "digit_val CHR ''5'' = 5"
  "digit_val CHR ''6'' = 6" "digit_val CHR ''7'' = 7" "digit_val CHR ''8'' = 8"
  "digit_val CHR ''9'' = 9"
  by (simp_all add: digit_val_def)

lemma digit_lt10: "is_digit c \<Longrightarrow> digit_val c < 10"
  by (auto simp: is_digit_cases digit_val_simps)

lemma digit_one: "is_digit c \<Longrightarrow> digit_val c = 1 \<longleftrightarrow> c = CHR ''1''"
  by (auto simp: is_digit_cases digit_val_simps)

lemma digit_two: "is_digit c \<Longrightarrow> digit_val c = 2 \<longleftrightarrow> c = CHR ''2''"
  by (auto simp: is_digit_cases digit_val_simps)

lemma digit_five: "is_digit c \<Longrightarrow> digit_val c = 5 \<longleftrightarrow> c = CHR ''5''"
  by (auto simp: is_digit_cases digit_val_simps)

lemma upto4: "c \<in> set ''01234'' \<longleftrightarrow> is_digit c \<and> digit_val c \<le> 4"
  by (auto simp: is_digit_cases digit_val_simps)

lemma upto5: "c \<in> set ''012345'' \<longleftrightarrow> is_digit c \<and> digit_val c \<le> 5"
  by (auto simp: is_digit_cases digit_val_simps)

lemma dec3: "dec [a, b, c] = 100 * digit_val a + 10 * digit_val b + digit_val c"
  by (simp add: dec_def)

lemma all_digits_iff: "set v \<subseteq> set ''0123456789'' \<longleftrightarrow> list_all is_digit v"
  unfolding list_all_iff is_digit_def by blast

lemma lang_Seq_Cls:
  "w \<in> lang (Seq (Cls cs) r) \<longleftrightarrow> (\<exists>c v. w = c # v \<and> c \<in> set cs \<and> v \<in> lang r)"
proof
  assume "w \<in> lang (Seq (Cls cs) r)"
  then show "\<exists>c v. w = c # v \<and> c \<in> set cs \<and> v \<in> lang r" by auto
next
  assume "\<exists>c v. w = c # v \<and> c \<in> set cs \<and> v \<in> lang r"
  then obtain c v where "w = [c] @ v" "[c] \<in> lang (Cls cs)" "v \<in> lang r" by auto
  then show "w \<in> lang (Seq (Cls cs) r)"
    unfolding lang.simps(4) by blast
qed

lemma lang_Seq_Opt:
  "w \<in> lang (Seq (Opt a) r) \<longleftrightarrow> w \<in> lang r \<or> w \<in> lang (Seq a r)"
proof
  assume "w \<in> lang (Seq (Opt a) r)"
  then show "w \<in> lang r \<or> w \<in> lang (Seq a r)" by auto
next
  assume "w \<in> lang r \<or> w \<in> lang (Seq a r)"
  then show "w \<in> lang (Seq (Opt a) r)"
  proof
    assume "w \<in> lang r"
    then have "w = [] @ w \<and> [] \<in> lang (Opt a) \<and> w \<in> lang r" by simp
    then show ?thesis unfolding lang.simps(4) by blast
  next
    assume "w \<in> lang (Seq a r)"
    then show ?thesis by auto
  qed
qed

lemma lang_lit2_cls:
  "w \<in> lang (Seq (lit x) (Seq (lit y) (Cls cs))) \<longleftrightarrow> (\<exists>c. w = [x, y, c] \<and> c \<in> set cs)"
  unfolding lit_def lang_Seq_Cls by auto

lemma lang_lit_cls2:
  "w \<in> lang (Seq (lit x) (Seq (Cls cs) (Cls ds))) \<longleftrightarrow>
     (\<exists>b c. w = [x, b, c] \<and> b \<in> set cs \<and> c \<in> set ds)"
  unfolding lit_def lang_Seq_Cls by auto

lemma lang_opt_lit:
  "w \<in> lang (Seq (Opt (lit x)) r) \<longleftrightarrow> w \<in> lang r \<or> (\<exists>v. w = x # v \<and> v \<in> lang r)"
  unfolding lang_Seq_Opt lit_def lang_Seq_Cls by auto

lemma lang_digits_1_2:
  "lang (rep 1 2 digit) = {v. 1 \<le> length v \<and> length v \<le> 2 \<and> list_all is_digit v}"
proof -
  have "lang (rep 1 2 (Cls ''0123456789'')) =
      {v. 1 \<le> length v \<and> length v \<le> 2 \<and> set v \<subseteq> set ''0123456789''}"
    by (rule lang_rep_cls) simp
  then show ?thesis
    by (simp only: digit_def all_digits_iff)
qed

lemma lang_octet_shape:
  "w \<in> lang octet_re \<longleftrightarrow>
     (\<exists>c. w = [CHR ''2'', CHR ''5'', c] \<and> c \<in> set ''012345'') \<or>
     (\<exists>b c. w = [CHR ''2'', b, c] \<and> b \<in> set ''01234'' \<and> is_digit c) \<or>
     (\<exists>v. (w = v \<or> w = CHR ''1'' # v) \<and> 1 \<le> length v \<and> length v \<le> 2 \<and> list_all is_digit v)"
proof -
  have 1: "w \<in> lang (Seq (lit CHR ''2'') (Seq (lit CHR ''5'') (Cls ''012345''))) \<longleftrightarrow>
      (\<exists>c. w = [CHR ''2'', CHR ''5'', c] \<and> c \<in> set ''012345'')"
    by (rule lang_lit2_cls)
  have 2: "w \<in> lang (Seq (lit CHR ''2'') (Seq (Cls ''01234'') digit)) \<longleftrightarrow>
      (\<exists>b c. w = [CHR ''2'', b, c] \<and> b \<in> set ''01234'' \<and> is_digit c)"
    unfolding digit_def is_digit_def by (rule lang_lit_cls2)
  have 3: "w \<in> lang (Seq (Opt (lit CHR ''1'')) (rep 1 2 digit)) \<longleftrightarrow>
      (\<exists>v. (w = v \<or> w = CHR ''1'' # v) \<and> 1 \<le> length v \<and> length v \<le> 2 \<and> list_all is_digit v)"
    unfolding lang_opt_lit lang_digits_1_2 mem_Collect_eq by blast
  have "w \<in> lang octet_re \<longleftrightarrow>
      w \<in> lang (Seq (lit CHR ''2'') (Seq (lit CHR ''5'') (Cls ''012345''))) \<or>
      w \<in> lang (Seq (lit CHR ''2'') (Seq (Cls ''01234'') digit)) \<or>
      w \<in> lang (Seq (Opt (lit CHR ''1'')) (rep 1 2 digit))"
    unfolding octet_re_def lang.simps(3) Un_iff ..
  then show ?thesis
    unfolding 1 2 3 .
qed

lemma len1: "length w = Suc 0 \<longleftrightarrow> (\<exists>a. w = [a])"
  by (cases w) auto

lemma len2: "length w = 2 \<longleftrightarrow> (\<exists>a b. w = [a, b])"
  by (cases w; cases "tl w") auto

lemma len3: "length w = 3 \<longleftrightarrow> (\<exists>a b c. w = [a, b, c])"
  by (cases w; cases "tl w"; cases "tl (tl w)") auto

lemma octet_ok_lang: "octet_ok w \<Longrightarrow> w \<in> lang octet_re"
proof -
  assume ok: "octet_ok w"
  then have dig: "list_all is_digit w" by (simp add: octet_ok_def)
  from ok consider "length w = 1 \<or> length w = 2" | "length w = 3" "100 \<le> dec w" "dec w \<le> 255"
    by (auto simp: octet_ok_def)
  then show ?thesis
  proof cases
    case 1
    then have "1 \<le> length w \<and> length w \<le> 2" by auto
    with dig show ?thesis unfolding lang_octet_shape by blast
  next
    case 2
    then obtain a b c where w: "w = [a, b, c]" by (auto simp: len3)
    with dig have da: "is_digit a" and db: "is_digit b" and dc: "is_digit c" by simp_all
    note lt = digit_lt10[OF da] digit_lt10[OF db] digit_lt10[OF dc]
    from 2 w have rng: "100 \<le> 100 * digit_val a + 10 * digit_val b + digit_val c"
      "100 * digit_val a + 10 * digit_val b + digit_val c \<le> 255"
      by (simp_all add: dec3)
    with lt have "digit_val a = 1 \<or> digit_val a = 2" by arith
    then show ?thesis
    proof
      assume "digit_val a = 1"
      then have "a = CHR ''1''" using digit_one[OF da] by blast
      with w have "w = CHR ''1'' # [b, c] \<and> 1 \<le> length [b, c] \<and> length [b, c] \<le> 2 \<and> list_all is_digit [b, c]"
        using db dc by simp
      then show ?thesis unfolding lang_octet_shape by blast
    next
      assume a2: "digit_val a = 2"
      then have a: "a = CHR ''2''" using digit_two[OF da] by blast
      from a2 rng lt have "digit_val b \<le> 4 \<or> (digit_val b = 5 \<and> digit_val c \<le> 5)" by arith
      then show ?thesis
      proof
        assume "digit_val b \<le> 4"
        then have "b \<in> set ''01234''" using db upto4 by blast
        with a w dc show ?thesis unfolding lang_octet_shape by blast
      next
        assume h: "digit_val b = 5 \<and> digit_val c \<le> 5"
        then have "b = CHR ''5''" using digit_five[OF db] by blast
        moreover from h have "c \<in> set ''012345''" using dc upto5 by blast
        ultimately show ?thesis using a w unfolding lang_octet_shape by blast
      qed
    qed
  qed
qed

lemma lang_octet_ok: "w \<in> lang octet_re \<Longrightarrow> octet_ok w"
proof -
  assume "w \<in> lang octet_re"
  then consider
      c where "w = [CHR ''2'', CHR ''5'', c]" "c \<in> set ''012345''"
    | b c where "w = [CHR ''2'', b, c]" "b \<in> set ''01234''" "is_digit c"
    | "1 \<le> length w" "length w \<le> 2" "list_all is_digit w"
    | v where "w = CHR ''1'' # v" "1 \<le> length v" "length v \<le> 2" "list_all is_digit v"
    unfolding lang_octet_shape by blast
  then show ?thesis
  proof cases
    case 1
    then have "is_digit c" "digit_val c \<le> 5" using upto5 by blast+
    with 1 show ?thesis
      by (simp add: octet_ok_def dec3 digit_val_simps is_digit_cases)
  next
    case 2
    then have "is_digit b" "digit_val b \<le> 4" using upto4 by blast+
    moreover have "digit_val c < 10" using 2 by (simp add: digit_lt10)
    ultimately show ?thesis using 2
      by (simp add: octet_ok_def dec3 digit_val_simps is_digit_cases[of "CHR ''2''"])
  next
    case 3
    then have "length w = 1 \<or> length w = 2" by arith
    with 3 show ?thesis by (simp add: octet_ok_def)
  next
    case 4
    then have "length v = 1 \<or> length v = 2" by arith
    then show ?thesis
    proof
      assume "length v = 1"
      with 4 show ?thesis by (simp add: octet_ok_def is_digit_cases[of "CHR ''1''"])
    next
      assume "length v = 2"
      then obtain b c where v: "v = [b, c]" by (auto simp: len2)
      with 4 have "digit_val b < 10" "digit_val c < 10" by (simp_all add: digit_lt10)
      with 4 v show ?thesis
        by (simp add: octet_ok_def dec3 digit_val_simps is_digit_cases[of "CHR ''1''"])
    qed
  qed
qed

lemma lang_octet: "lang octet_re = {w. octet_ok w}"
  using lang_octet_ok octet_ok_lang by blast

section \<open>Splitting at a separator\<close>

lemma split_acc_acc:
  "split_acc sep acc s = (rev acc @ hd (split_acc sep [] s)) # tl (split_acc sep [] s)"
proof (induction s arbitrary: acc)
  case Nil
  show ?case by simp
next
  case (Cons c cs)
  show ?case
  proof (cases "c = sep")
    case True
    then show ?thesis by simp
  next
    case False
    have "split_acc sep (c # acc) cs = (rev (c # acc) @ hd (split_acc sep [] cs)) # tl (split_acc sep [] cs)"
      by (rule Cons.IH)
    moreover have "split_acc sep [c] cs = (rev [c] @ hd (split_acc sep [] cs)) # tl (split_acc sep [] cs)"
      by (rule Cons.IH)
    ultimately show ?thesis using False by simp
  qed
qed

lemma split_Nil: "split sep [] = [[]]"
  by (simp add: split_def)

lemma split_Cons:
  "split sep (c # cs) =
     (if c = sep then [] # split sep cs else (c # hd (split sep cs)) # tl (split sep cs))"
  unfolding split_def using split_acc_acc[of sep "[c]" cs] by simp

lemma split_ne: "split sep s \<noteq> []"
  by (cases s) (simp_all add: split_Nil split_Cons)

lemma split_app:
  "sep \<notin> set a \<Longrightarrow> split sep (a @ rest) = (a @ hd (split sep rest)) # tl (split sep rest)"
proof (induction a)
  case Nil
  show ?case using split_ne[of sep rest] by simp
next
  case (Cons c a)
  then show ?case by (auto simp: split_Cons)
qed

lemma split_app_sep: "sep \<notin> set a \<Longrightarrow> split sep (a @ sep # rest) = a # split sep rest"
  by (simp add: split_app split_Cons)

lemma split_nosep: "sep \<notin> set a \<Longrightarrow> split sep a = [a]"
  using split_app[of sep a "[]"] by (simp add: split_Nil)

lemma split_pieces: "w \<in> set (split sep s) \<Longrightarrow> sep \<notin> set w"
proof (induction s arbitrary: w)
  case Nil
  then show ?case by (simp add: split_Nil)
next
  case (Cons c cs)
  show ?case
  proof (cases "c = sep")
    case True
    with Cons.prems have "w = [] \<or> w \<in> set (split sep cs)" by (simp add: split_Cons)
    then show ?thesis using Cons.IH by auto
  next
    case False
    obtain x xs where x: "split sep cs = x # xs" using split_ne[of sep cs] by (cases "split sep cs") auto
    with False Cons.prems have "w = c # x \<or> w \<in> set xs" by (simp add: split_Cons)
    moreover have "sep \<notin> set x" using Cons.IH[of x] x by simp
    moreover have "w \<in> set xs \<Longrightarrow> sep \<notin> set w" using Cons.IH[of w] x by simp
    ultimately show ?thesis using False by auto
  qed
qed

lemma split_unsplit: "hd (split sep s) @ concat (map ((#) sep) (tl (split sep s))) = s"
proof (induction s)
  case Nil
  show ?case by (simp add: split_Nil)
next
  case (Cons c cs)
  show ?case
  proof (cases "c = sep")
    case True
    obtain x xs where x: "split sep cs = x # xs" using split_ne[of sep cs] by (cases "split sep cs") auto
    with Cons True show ?thesis by (simp add: split_Cons)
  next
    case False
    with Cons show ?thesis by (simp add: split_Cons)
  qed
qed

lemma split_sepd:
  "sep \<notin> set a \<Longrightarrow> (\<And>w. w \<in> set ws \<Longrightarrow> sep \<notin> set w) \<Longrightarrow>
   split sep (a @ concat (map ((#) sep) ws)) = a # ws"
proof (induction ws arbitrary: a)
  case Nil
  then show ?case by (simp add: split_nosep)
next
  case (Cons w ws)
  have "split sep (w @ concat (map ((#) sep) ws)) = w # ws"
    by (rule Cons.IH) (simp_all add: Cons.prems)
  then show ?case using Cons.prems(1) by (simp add: split_app_sep)
qed

lemma sepd_iff:
  assumes nosep: "\<And>w. P w \<Longrightarrow> sep \<notin> set w"
  shows "(\<exists>a ws. s = a @ concat (map ((#) sep) ws) \<and> P a \<and> length ws = n \<and> list_all P ws) \<longleftrightarrow>
         length (split sep s) = Suc n \<and> list_all P (split sep s)"
proof
  assume "\<exists>a ws. s = a @ concat (map ((#) sep) ws) \<and> P a \<and> length ws = n \<and> list_all P ws"
  then obtain a ws where h: "s = a @ concat (map ((#) sep) ws)" "P a" "length ws = n" "list_all P ws"
    by blast
  have "split sep s = a # ws"
    unfolding h(1) using h(2,4) nosep by (intro split_sepd) (auto simp: list_all_iff)
  with h show "length (split sep s) = Suc n \<and> list_all P (split sep s)" by simp
next
  assume h: "length (split sep s) = Suc n \<and> list_all P (split sep s)"
  then obtain a ws where x: "split sep s = a # ws" by (cases "split sep s") auto
  have "s = a @ concat (map ((#) sep) ws)" using split_unsplit[of sep s] x by simp
  with h x show "\<exists>a ws. s = a @ concat (map ((#) sep) ws) \<and> P a \<and> length ws = n \<and> list_all P ws"
    by auto
qed

section \<open>The two address patterns\<close>

lemma lang_times_sep:
  "lang (times_re n (Seq (lit sep) r)) =
     {concat (map ((#) sep) ws) | ws. length ws = n \<and> set ws \<subseteq> lang r}"
proof (rule set_eqI, rule iffI)
  fix s assume "s \<in> lang (times_re n (Seq (lit sep) r))"
  then obtain us where us: "s = concat us" "length us = n" "set us \<subseteq> lang (Seq (lit sep) r)"
    unfolding lang_times by blast
  let ?ws = "map tl us"
  have "\<And>u. u \<in> set us \<Longrightarrow> u = sep # tl u \<and> tl u \<in> lang r"
    using us(3) unfolding lit_def by (auto simp: lang_Seq_Cls)
  then have "map ((#) sep) ?ws = us" "set ?ws \<subseteq> lang r"
    by (auto simp: map_idI)
  with us have "s = concat (map ((#) sep) ?ws) \<and> length ?ws = n \<and> set ?ws \<subseteq> lang r" by simp
  then show "s \<in> {concat (map ((#) sep) ws) | ws. length ws = n \<and> set ws \<subseteq> lang r}" by blast
next
  fix s assume "s \<in> {concat (map ((#) sep) ws) | ws. length ws = n \<and> set ws \<subseteq> lang r}"
  then obtain ws where ws: "s = concat (map ((#) sep) ws)" "length ws = n" "set ws \<subseteq> lang r" by blast
  let ?us = "map ((#) sep) ws"
  have "set ?us \<subseteq> lang (Seq (lit sep) r)"
    using ws(3) unfolding lit_def by (auto simp: lang_Seq_Cls)
  with ws have "s = concat ?us \<and> length ?us = n \<and> set ?us \<subseteq> lang (Seq (lit sep) r)" by simp
  then show "s \<in> lang (times_re n (Seq (lit sep) r))"
    unfolding lang_times by blast
qed

lemma lang_rep_exact: "lang (rep n n r) = lang (times_re n r)"
  by (simp add: rep_def)

lemma digit_not_dot: "is_digit c \<Longrightarrow> c \<noteq> CHR ''.''"
  by (auto simp: is_digit_cases)

lemma octet_no_dot: "octet_ok w \<Longrightarrow> CHR ''.'' \<notin> set w"
  unfolding octet_ok_def list_all_iff using digit_not_dot by blast

lemma ipv4_lang: "s \<in> lang ipv4_re \<longleftrightarrow> dotted_quad octet_ok s"
proof -
  have "s \<in> lang ipv4_re \<longleftrightarrow>
     (\<exists>a ws. s = a @ concat (map ((#) CHR ''.'') ws) \<and> octet_ok a \<and> length ws = 3 \<and> list_all octet_ok ws)"
    unfolding ipv4_re_def lang.simps(4) lang_rep_exact lang_times_sep lang_octet list_all_iff
    by blast
  also have "\<dots> \<longleftrightarrow> length (split CHR ''.'' s) = Suc 3 \<and> list_all octet_ok (split CHR ''.'' s)"
    by (rule sepd_iff) (rule octet_no_dot)
  finally show ?thesis by (simp add: dotted_quad_def Let_def)
qed

lemma all_hex_iff: "set v \<subseteq> set ''0123456789abcdefABCDEF'' \<longleftrightarrow> list_all is_hex v"
  unfolding list_all_iff is_hex_def by blast

lemma lang_group: "lang group_re = {g. hex_group g}"
proof -
  have "lang (rep 1 4 (Cls ''0123456789abcdefABCDEF'')) =
      {v. 1 \<le> length v \<and> length v \<le> 4 \<and> set v \<subseteq> set ''0123456789abcdefABCDEF''}"
    by (rule lang_rep_cls) simp
  then show ?thesis
    by (simp only: group_re_def hexdig_def all_hex_iff hex_group_def)
qed

lemma lang_Seq_lit_end: "lang (Seq r (lit c)) = {v @ [c] | v. v \<in> lang r}"
  by (auto simp: lit_def)

lemma lang_times_end:
  "lang (times_re n (Seq r (lit sep))) =
     {concat (map (\<lambda>w. w @ [sep]) ws) | ws. length ws = n \<and> set ws \<subseteq> lang r}"
proof (rule set_eqI, rule iffI)
  fix s assume "s \<in> lang (times_re n (Seq r (lit sep)))"
  then obtain us where us: "s = concat us" "length us = n" "set us \<subseteq> lang (Seq r (lit sep))"
    unfolding lang_times by blast
  let ?ws = "map butlast us"
  have "\<And>u. u \<in> set us \<Longrightarrow> u = butlast u @ [sep] \<and> butlast u \<in> lang r"
    using us(3) unfolding lang_Seq_lit_end by auto
  then have "map (\<lambda>w. w @ [sep]) ?ws = us" "set ?ws \<subseteq> lang r"
    by (auto simp: map_idI)
  with us have "s = concat (map (\<lambda>w. w @ [sep]) ?ws) \<and> length ?ws = n \<and> set ?ws \<subseteq> lang r" by simp
  then show "s \<in> {concat (map (\<lambda>w. w @ [sep]) ws) | ws. length ws = n \<and> set ws \<subseteq> lang r}" by blast
next
  fix s assume "s \<in> {concat (map (\<lambda>w. w @ [sep]) ws) | ws. length ws = n \<and> set ws \<subseteq> lang r}"
  then obtain ws where ws: "s = concat (map (\<lambda>w. w @ [sep]) ws)" "length ws = n" "set ws \<subseteq> lang r" by blast
  let ?us = "map (\<lambda>w. w @ [sep]) ws"
  have "set ?us \<subseteq> lang (Seq r (lit sep))"
    using ws(3) unfolding lang_Seq_lit_end by auto
  with ws have "s = concat ?us \<and> length ?us = n \<and> set ?us \<subseteq> lang (Seq r (lit sep))" by simp
  then show "s \<in> lang (times_re n (Seq r (lit sep)))"
    unfolding lang_times by blast
qed

lemma trailing_to_leading:
  "concat (map (\<lambda>w. w @ [sep]) ws) @ g = hd (ws @ [g]) @ concat (map ((#) sep) (tl (ws @ [g])))"
proof (induction ws)
  case Nil
  show ?case by simp
next
  case (Cons w ws)
  then show ?case by (cases ws) simp_all
qed

lemma trailing_iff:
  "(\<exists>ws g. s = concat (map (\<lambda>w. w @ [sep]) ws) @ g \<and> length ws = n \<and> list_all P ws \<and> P g) \<longleftrightarrow>
   (\<exists>a vs. s = a @ concat (map ((#) sep) vs) \<and> P a \<and> length vs = n \<and> list_all P vs)"
proof
  assume "\<exists>ws g. s = concat (map (\<lambda>w. w @ [sep]) ws) @ g \<and> length ws = n \<and> list_all P ws \<and> P g"
  then obtain ws g where h: "s = concat (map (\<lambda>w. w @ [sep]) ws) @ g" "length ws = n" "list_all P ws" "P g"
    by blast
  let ?a = "hd (ws @ [g])" and ?vs = "tl (ws @ [g])"
  have "s = ?a @ concat (map ((#) sep) ?vs)" unfolding h(1) by (rule trailing_to_leading)
  moreover have "list_all P (ws @ [g])" using h by simp
  then have "P ?a \<and> list_all P ?vs" by (cases ws) simp_all
  moreover have "length ?vs = n" using h by simp
  ultimately show "\<exists>a vs. s = a @ concat (map ((#) sep) vs) \<and> P a \<and> length vs = n \<and> list_all P vs"
    by blast
next
  assume "\<exists>a vs. s = a @ concat (map ((#) sep) vs) \<and> P a \<and> length vs = n \<and> list_all P vs"
  then obtain a vs where h: "s = a @ concat (map ((#) sep) vs)" "P a" "length vs = n" "list_all P vs"
    by blast
  let ?ws = "butlast (a # vs)" and ?g = "last (a # vs)"
  have app: "?ws @ [?g] = a # vs" by (rule append_butlast_last_id) simp
  have "concat (map (\<lambda>w. w @ [sep]) ?ws) @ ?g = hd (?ws @ [?g]) @ concat (map ((#) sep) (tl (?ws @ [?g])))"
    by (rule trailing_to_leading)
  then have "s = concat (map (\<lambda>w. w @ [sep]) ?ws) @ ?g"
    unfolding app h(1) by simp
  moreover have "length ?ws = n" using h(3) by (simp only: length_butlast length_Cons diff_Suc_1)
  moreover have "list_all P (?ws @ [?g])" unfolding app using h by simp
  then have "list_all P ?ws \<and> P ?g" by simp
  ultimately show "\<exists>ws g. s = concat (map (\<lambda>w. w @ [sep]) ws) @ g \<and> length ws = n \<and> list_all P ws \<and> P g"
    by blast
qed

lemma hex_not_colon: "is_hex c \<Longrightarrow> c \<noteq> CHR '':''"
  by (auto simp: is_hex_def)

lemma hex_not_dot: "is_hex c \<Longrightarrow> c \<noteq> CHR ''.''"
  by (auto simp: is_hex_def)

lemma group_no_colon: "hex_group w \<Longrightarrow> CHR '':'' \<notin> set w"
  unfolding hex_group_def list_all_iff using hex_not_colon by blast

lemma lang_loopback: "w \<in> lang (Seq (lit x) (Seq (lit y) (lit z))) \<longleftrightarrow> w = [x, y, z]"
  unfolding lit_def lang_Seq_Cls by auto

lemma ipv6_lang: "s \<in> lang ipv6_re \<longleftrightarrow> full_ipv6 s \<or> s = ''::1''"
proof -
  have "s \<in> lang (Seq (rep 7 7 (Seq group_re (lit CHR '':''))) group_re) \<longleftrightarrow>
     (\<exists>ws g. s = concat (map (\<lambda>w. w @ [CHR '':'']) ws) @ g \<and> length ws = 7 \<and> list_all hex_group ws \<and> hex_group g)"
    unfolding lang.simps(4) lang_rep_exact lang_times_end lang_group list_all_iff
    by blast
  also have "\<dots> \<longleftrightarrow>
     (\<exists>a vs. s = a @ concat (map ((#) CHR '':'') vs) \<and> hex_group a \<and> length vs = 7 \<and> list_all hex_group vs)"
    by (rule trailing_iff)
  also have "\<dots> \<longleftrightarrow> length (split CHR '':'' s) = Suc 7 \<and> list_all hex_group (split CHR '':'' s)"
    by (rule sepd_iff) (rule group_no_colon)
  finally have full: "s \<in> lang (Seq (rep 7 7 (Seq group_re (lit CHR '':''))) group_re) \<longleftrightarrow> full_ipv6 s"
    by (simp add: full_ipv6_def Let_def)
  show ?thesis
    unfolding ipv6_re_def lang.simps(3) Un_iff full lang_loopback by simp
qed

lemma test_ipv4: "test ipv4_re s \<longleftrightarrow> dotted_quad octet_ok s"
  by (simp only: test_lang ipv4_lang)

lemma test_ipv6: "test ipv6_re s \<longleftrightarrow> full_ipv6 s \<or> s = ''::1''"
  by (simp only: test_lang ipv6_lang)

lemma dotted_has_dot: "dotted_quad P s \<Longrightarrow> CHR ''.'' \<in> set s"
proof (rule ccontr)
  assume d: "dotted_quad P s" and "CHR ''.'' \<notin> set s"
  then have "split CHR ''.'' s = [s]" by (rule_tac split_nosep)
  with d show False by (simp add: dotted_quad_def)
qed

lemma set_unsplit: "set s \<subseteq> insert sep (\<Union> (set ` set (split sep s)))"
proof -
  obtain a vs where x: "split sep s = a # vs" using split_ne[of sep s] by (cases "split sep s") auto
  have "s = a @ concat (map ((#) sep) vs)" using split_unsplit[of sep s] x by simp
  then have "set s = set a \<union> \<Union> (set ` set (map ((#) sep) vs))" by (metis set_append set_concat)
  then show ?thesis unfolding x by auto
qed

lemma full_ipv6_no_dot: "full_ipv6 s \<Longrightarrow> CHR ''.'' \<notin> set s"
proof
  assume f: "full_ipv6 s" and "CHR ''.'' \<in> set s"
  then obtain w where w: "w \<in> set (split CHR '':'' s)" "CHR ''.'' \<in> set w"
    using set_unsplit[of s "CHR '':''"] by auto
  from f w(1) have "list_all is_hex w"
    by (auto simp: full_ipv6_def Let_def list_all_iff hex_group_def)
  with w(2) show False using hex_not_dot by (auto simp: list_all_iff)
qed

lemma ipv4_not_ipv6: "dotted_quad P s \<Longrightarrow> \<not> (full_ipv6 s \<or> s = ''::1'')"
  using dotted_has_dot full_ipv6_no_dot by fastforce

section \<open>Classifying an input\<close>

lemma dropWhile_keep: "xs = [] \<or> \<not> P (hd xs) \<Longrightarrow> dropWhile P xs = xs"
  by (cases xs) auto

lemma trim_idem: "trim (trim s) = trim s"
proof -
  let ?t = "dropWhile is_ws s"
  let ?u = "rev (dropWhile is_ws (rev ?t))"
  have front: "dropWhile is_ws ?u = ?u"
  proof (cases "?t = []")
    case True
    then have "?u = []" by (simp only: rev.simps dropWhile.simps)
    then show ?thesis by (simp only: dropWhile.simps)
  next
    case False
    then have nh: "\<not> is_ws (hd ?t)" by (rule hd_dropWhile)
    have "last (rev ?t) = hd ?t" using False by (simp add: last_rev)
    then have "dropWhile is_ws (rev ?t) \<noteq> []"
      using nh False by (metis dropWhile_eq_Nil_conv last_in_set rev_is_Nil_conv)
    moreover have "\<exists>ys. rev ?t = ys @ dropWhile is_ws (rev ?t)"
      by (metis takeWhile_dropWhile_id)
    ultimately have "hd ?u = hd ?t"
      by (metis False hd_rev last_appendR last_rev)
    with nh have "\<not> is_ws (hd ?u)" by simp
    then show ?thesis by (intro dropWhile_keep disjI2)
  qed
  show ?thesis
    unfolding trim_def front by (simp add: dropWhile_idem)
qed

lemma dotted_quad_Nil: "\<not> dotted_quad P []"
  by (simp add: dotted_quad_def split_Nil)

lemma full_ipv6_Nil: "\<not> full_ipv6 []"
  by (simp add: full_ipv6_def split_Nil)

lemma classify_IPv4: "classify s = IPv4 \<longleftrightarrow> dotted_quad octet_ok (trim s)"
  using dotted_quad_Nil[of octet_ok]
  by (auto simp: classify_def Let_def test_ipv4)

lemma classify_IPv6: "classify s = IPv6 \<longleftrightarrow> full_ipv6 (trim s) \<or> trim s = ''::1''"
  using full_ipv6_Nil ipv4_not_ipv6[of octet_ok "trim s"]
  by (auto simp: classify_def Let_def test_ipv4 test_ipv6)

lemma classify_trim: "classify (trim s) = classify s"
  by (simp add: classify_def trim_idem)

lemma trim_keep: "s = [] \<or> (\<not> is_ws (hd s) \<and> \<not> is_ws (last s)) \<Longrightarrow> trim s = s"
proof (cases "s = []")
  case True
  then show ?thesis by (simp add: trim_def)
next
  case False
  assume "s = [] \<or> (\<not> is_ws (hd s) \<and> \<not> is_ws (last s))"
  with False have h: "\<not> is_ws (hd s)" "\<not> is_ws (last s)" by simp_all
  have 1: "dropWhile is_ws s = s" using h(1) by (intro dropWhile_keep disjI2)
  have "hd (rev s) = last s" using False by (simp add: hd_rev)
  then have 2: "dropWhile is_ws (rev s) = rev s" using h(2) by (intro dropWhile_keep disjI2) simp
  show ?thesis unfolding trim_def 1 2 by simp
qed

lemma geo_rejected: "\<not> test ipv4_re ''geo'' \<and> \<not> test ipv6_re ''geo''"
  by (simp add: test_ipv4 test_ipv6 dotted_quad_def full_ipv6_def split_def)

lemma handleSearch_classify:
  "snd (handleSearch s) = (if classify (search s) = Invalid then None else Some (trim (search s)))"
  by (simp add: handleSearch_def classify_def Let_def)

text \<open>
  C8, as the code has it. \<open>classify\<close> is a total function into the three classes, and its
  result depends on the trimmed input only. The four sample inputs are classified as stated.
  An input is IPv4 exactly when, trimmed, it is four parts separated by dots, each part
  being one or two decimal digits (a leading zero included, as in 07 or 00) or three digits
  with a value from 100 to 255. It is IPv6 exactly when, trimmed, it is the full form of
  eight groups of one to four hexadecimal digits, or \<^verbatim>\<open>::1\<close>.
\<close>

theorem classify_forms:
  "classify ''8.8.8.8'' = IPv4 \<and> classify ''::1'' = IPv6 \<and>
   classify ''not-an-ip'' = Invalid \<and> classify [] = Invalid \<and>
   classify (trim s) = classify s \<and>
   (classify s = IPv4 \<longleftrightarrow> dotted_quad octet_ok (trim s)) \<and>
   (classify s = IPv6 \<longleftrightarrow> full_ipv6 (trim s) \<or> trim s = ''::1'')"
proof -
  have 1: "classify ''8.8.8.8'' = IPv4"
    unfolding classify_IPv4
    by (simp add: trim_keep is_ws_def dotted_quad_def split_def octet_ok_def is_digit_def)
  have 2: "classify ''::1'' = IPv6"
    unfolding classify_IPv6 by (simp add: trim_keep is_ws_def)
  have t: "trim ''not-an-ip'' = ''not-an-ip''"
    by (simp add: trim_keep is_ws_def)
  have "\<not> dotted_quad octet_ok ''not-an-ip''"
    by (simp add: dotted_quad_def split_def)
  moreover have "\<not> full_ipv6 ''not-an-ip''"
    by (simp add: full_ipv6_def split_def)
  ultimately have 3: "classify ''not-an-ip'' = Invalid"
    by (simp add: classify_def t test_ipv4 test_ipv6)
  have 4: "classify [] = Invalid"
    by (simp add: classify_def trim_def)
  from 1 2 3 4 show ?thesis
    by (simp only: classify_trim classify_IPv4 classify_IPv6 simp_thms)
qed

theorem classify_forms_witness:
  "classify '' 10.0.07.255  '' = IPv4 \<and> classify '' 10.0.07.256'' \<noteq> IPv4 \<and>
   classify ''1:2:3:4:5:6:7:8'' = IPv6 \<and> classify ''1::8'' \<noteq> IPv6"
proof -
  have a: "trim '' 10.0.07.255  '' = ''10.0.07.255''"
    by (simp add: trim_def is_ws_def)
  have b: "trim '' 10.0.07.256'' = ''10.0.07.256''"
    by (simp add: trim_def is_ws_def)
  have c: "trim ''1:2:3:4:5:6:7:8'' = ''1:2:3:4:5:6:7:8''"
    by (simp add: trim_keep is_ws_def)
  have d: "trim ''1::8'' = ''1::8''"
    by (simp add: trim_keep is_ws_def)
  have "dotted_quad octet_ok ''10.0.07.255''"
    by (simp add: dotted_quad_def split_def octet_ok_def is_digit_def dec_def digit_val_simps)
  then have 1: "classify '' 10.0.07.255  '' = IPv4"
    using classify_forms [of "'' 10.0.07.255  ''"] by (simp add: a)
  have "\<not> dotted_quad octet_ok ''10.0.07.256''"
    by (simp add: dotted_quad_def split_def octet_ok_def is_digit_def dec_def digit_val_simps)
  then have 2: "classify '' 10.0.07.256'' \<noteq> IPv4"
    using classify_forms [of "'' 10.0.07.256''"] by (simp add: b)
  have "full_ipv6 ''1:2:3:4:5:6:7:8''"
    by (simp add: full_ipv6_def split_def hex_group_def is_hex_def)
  then have 3: "classify ''1:2:3:4:5:6:7:8'' = IPv6"
    using classify_forms [of "''1:2:3:4:5:6:7:8''"] by (simp add: c)
  have "\<not> (full_ipv6 ''1::8'' \<or> ''1::8'' = ''::1'')"
    by (simp add: full_ipv6_def split_def)
  then have 4: "classify ''1::8'' \<noteq> IPv6"
    using classify_forms [of "''1::8''"] by (simp add: d)
  from 1 2 3 4 show ?thesis by simp
qed

text \<open>
  C8 as stated fails, whichever way the wording on leading zeros is read. If a decimal octet
  may carry leading zeros, 001.1.1.1 is four octets in range, and it is classified Invalid.
  If it may not, 01.1.1.1 is not four such octets, and it is classified IPv4.
\<close>

theorem classify_octets_counterexample:
  "(classify ''001.1.1.1'' = Invalid \<and> dotted_quad spec_octet ''001.1.1.1'') \<and>
   (classify ''01.1.1.1'' = IPv4 \<and> \<not> dotted_quad spec_octet_strict ''01.1.1.1'')"
proof -
  have t1: "trim ''001.1.1.1'' = ''001.1.1.1''" by (simp add: trim_keep is_ws_def)
  have t2: "trim ''01.1.1.1'' = ''01.1.1.1''" by (simp add: trim_keep is_ws_def)
  have s1: "split CHR ''.'' ''001.1.1.1'' = [''001'', ''1'', ''1'', ''1'']" by (simp add: split_def)
  have s2: "split CHR ''.'' ''01.1.1.1'' = [''01'', ''1'', ''1'', ''1'']" by (simp add: split_def)
  have d1: "dec ''001'' = 1" by (simp add: dec_def digit_val_simps)
  have n4: "\<not> dotted_quad octet_ok ''001.1.1.1''"
    by (simp add: dotted_quad_def s1 octet_ok_def d1)
  have n6: "\<not> (full_ipv6 ''001.1.1.1'' \<or> ''001.1.1.1'' = ''::1'')"
    by (simp add: full_ipv6_def split_def)
  have a: "classify ''001.1.1.1'' = Invalid"
    using n4 n6 by (simp add: classify_def t1 test_ipv4 test_ipv6)
  have b: "dotted_quad spec_octet ''001.1.1.1''"
    by (simp add: dotted_quad_def s1 spec_octet_def d1 is_digit_def dec_def digit_val_simps)
  have c: "classify ''01.1.1.1'' = IPv4"
    unfolding classify_IPv4 t2 by (simp add: dotted_quad_def s2 octet_ok_def is_digit_def)
  have d: "\<not> dotted_quad spec_octet_strict ''01.1.1.1''"
    by (simp add: dotted_quad_def s2 spec_octet_strict_def)
  from a b c d show ?thesis by simp
qed

section \<open>The entry a lookup records\<close>

text \<open>
  C10. A search that is dispatched passes the trimmed text of the input as the query, and
  that text is never \<^verbatim>\<open>geo\<close>; a click on a history entry passes the stored \<open>ip\<close> as it is.
  When the lookup for a query other than \<^verbatim>\<open>geo\<close> succeeds, the new entry is at the front with
  the query as its \<open>ip\<close>, whatever \<open>ip\<close> the returned record carries, and the entries dropped
  are those whose \<open>ip\<close> equals the query.
\<close>

theorem entry_ip_is_query:
  "(handleSearch s = (s', Some q) \<longrightarrow> q = trim (search s) \<and> q \<noteq> ''geo'') \<and>
   handleHistoryClick s i = (s\<lparr>search := i, error := []\<rparr>, Some i) \<and>
   (q \<noteq> ''geo'' \<longrightarrow>
      history (fetchGeoFor_settle s q now (Body d)) =
        \<lparr>ip = q, data = d, whenISO = now\<rparr> # take 49 (filter (\<lambda>h. ip h \<noteq> q) (history s)))"
proof (intro conjI impI)
  assume h: "handleSearch s = (s', Some q)"
  then have q: "q = trim (search s)"
    by (auto simp: handleSearch_def Let_def split: if_splits)
  from h have "test ipv4_re q \<or> test ipv6_re q"
    by (auto simp: handleSearch_def Let_def split: if_splits)
  then have "q \<noteq> ''geo''"
    using geo_rejected by auto
  with q show "q = trim (search s)" and "q \<noteq> ''geo''" by simp_all
next
  show "handleHistoryClick s i = (s\<lparr>search := i, error := []\<rparr>, Some i)"
    by (simp add: handleHistoryClick_def fetchGeoFor_dispatch_def)
next
  assume "q \<noteq> ''geo''"
  then show "history (fetchGeoFor_settle s q now (Body d)) =
        \<lparr>ip = q, data = d, whenISO = now\<rparr> # take 49 (filter (\<lambda>h. ip h \<noteq> q) (history s))"
    by (simp add: fetchGeoFor_settle_def Let_def recordLookup_def take_Cons')
qed

theorem entry_ip_is_query_witness:
  "handleSearch ((mount [visit ''8.8.8.8'' ''t0''])\<lparr>search := '' 08.8.8.8 ''\<rparr>) =
     ((mount [visit ''8.8.8.8'' ''t0''])\<lparr>search := '' 08.8.8.8 ''\<rparr>, Some ''08.8.8.8'') \<and>
   ''08.8.8.8'' \<noteq> ''geo'' \<and>
   history (fetchGeoFor_settle ((mount [visit ''8.8.8.8'' ''t0''])\<lparr>search := '' 08.8.8.8 ''\<rparr>)
              ''08.8.8.8'' ''t1'' (Body (blank\<lparr>g_ip := Some ''8.8.8.8''\<rparr>))) =
     [\<lparr>ip = ''08.8.8.8'', data = blank\<lparr>g_ip := Some ''8.8.8.8''\<rparr>, whenISO = ''t1''\<rparr>,
      visit ''8.8.8.8'' ''t0'']"
proof -
  let ?s = "(mount [visit ''8.8.8.8'' ''t0''])\<lparr>search := '' 08.8.8.8 ''\<rparr>"
  have t: "trim '' 08.8.8.8 '' = ''08.8.8.8''"
    by (simp add: trim_def is_ws_def)
  have v: "test ipv4_re ''08.8.8.8''"
    unfolding test_ipv4
    by (simp add: dotted_quad_def split_def octet_ok_def is_digit_def)
  have h: "handleSearch ?s = (?s, Some ''08.8.8.8'')"
    by (simp add: handleSearch_def Let_def t v fetchGeoFor_dispatch_def mount_def)
  have n: "''08.8.8.8'' \<noteq> ''geo''" by simp
  have rest: "take 49 (filter (\<lambda>h. ip h \<noteq> ''08.8.8.8'') (history ?s)) = [visit ''8.8.8.8'' ''t0'']"
    by (simp add: mount_def visit_def)
  have "history (fetchGeoFor_settle ?s ''08.8.8.8'' ''t1'' (Body (blank\<lparr>g_ip := Some ''8.8.8.8''\<rparr>))) =
      \<lparr>ip = ''08.8.8.8'', data = blank\<lparr>g_ip := Some ''8.8.8.8''\<rparr>, whenISO = ''t1''\<rparr> #
      take 49 (filter (\<lambda>h. ip h \<noteq> ''08.8.8.8'') (history ?s))"
    using n entry_ip_is_query [of ?s ?s "''08.8.8.8''" "[]" "''t1''" "blank\<lparr>g_ip := Some ''8.8.8.8''\<rparr>"]
    by blast
  then have "history (fetchGeoFor_settle ?s ''08.8.8.8'' ''t1'' (Body (blank\<lparr>g_ip := Some ''8.8.8.8''\<rparr>))) =
      [\<lparr>ip = ''08.8.8.8'', data = blank\<lparr>g_ip := Some ''8.8.8.8''\<rparr>, whenISO = ''t1''\<rparr>,
       visit ''8.8.8.8'' ''t0'']"
    by (simp only: rest)
  with h n show ?thesis by blast
qed

section \<open>Loading never fails\<close>



section \<open>The map follows the current record\<close>

lemma parts_placed: "loc_parts (blank\<lparr>loc := Some ''12.3,-45.6''\<rparr>) = [Num ''12.3'', Num ''-45.6'']"
  by (simp add: loc_parts_def blank_def or_empty_def split_def parseFloat_def trim_start_def
      is_ws_def unsigned_literal_def is_digit_def exponent_part_def)

lemma parts_unknown: "loc_parts (blank\<lparr>loc := Some ''unknown''\<rparr>) = [NaN]"
  by (simp add: loc_parts_def blank_def or_empty_def split_def parseFloat_def trim_start_def
      is_ws_def unsigned_literal_def is_digit_def exponent_part_def)

lemma parts_prefixes: "loc_parts (blank\<lparr>loc := Some ''51.5N,0.12W''\<rparr>) = [Num ''51.5'', Num ''0.12'']"
  by (simp add: loc_parts_def blank_def or_empty_def split_def parseFloat_def trim_start_def
      is_ws_def unsigned_literal_def is_digit_def exponent_part_def)

lemma parts_absent: "loc g = None \<Longrightarrow> loc_parts g = [NaN]"
  by (simp add: loc_parts_def or_empty_def split_def parseFloat_def trim_start_def
      unsigned_literal_def)

lemma popup_blank: "popup_html (blank\<lparr>loc := l\<rparr>) = []"
  by (simp add: popup_html_def popup_line_def present_def blank_def)

lemma placed:
  "update_map (Some (blank\<lparr>loc := Some ''12.3,-45.6''\<rparr>)) fresh_map =
     \<lparr>mapInstance = Some \<lparr>center = (Num ''12.3'', Num ''-45.6''), zoom = 12,
                          circles = [((Num ''12.3'', Num ''-45.6''), 500)],
                          precisionCircle = Some ((Num ''12.3'', Num ''-45.6''), 500)\<rparr>,
      markerRef = Some \<lparr>position = (Num ''12.3'', Num ''-45.6''), popup = Some [],
                        popup_open = True\<rparr>\<rparr>"
  by (simp add: update_map_def parts_placed fresh_map_def Let_def popup_blank)

text \<open>
  C3, as the code has it. A record whose \<open>loc\<close> reads as two numbers moves the view and the
  marker there and leaves one precision circle there. A record whose \<open>loc\<close> is absent, or
  does not split at the comma into exactly two parts that \<^verbatim>\<open>parseFloat\<close> reads as numbers,
  changes nothing: the marker, the view and the precision circle stay as they were.
\<close>

theorem map_sync:
  "(length (loc_parts g) \<noteq> 2 \<or> NaN \<in> set (loc_parts g) \<longrightarrow> update_map (Some g) refs = refs) \<and>
   (loc g = None \<longrightarrow> update_map (Some g) refs = refs) \<and>
   (mapInstance refs = Some m \<and> loc_parts g = [lat, lon] \<and> lat \<noteq> NaN \<and> lon \<noteq> NaN \<longrightarrow>
      map_option position (markerRef (update_map (Some g) refs)) = Some (lat, lon) \<and>
      map_option center (mapInstance (update_map (Some g) refs)) = Some (lat, lon) \<and>
      map_option precisionCircle (mapInstance (update_map (Some g) refs)) = Some (Some ((lat, lon), 500)))"
proof (intro conjI impI)
  assume "length (loc_parts g) \<noteq> 2 \<or> NaN \<in> set (loc_parts g)"
  then show "update_map (Some g) refs = refs"
    by (auto simp: update_map_def Let_def list_ex_iff split: option.splits)
next
  assume "loc g = None"
  then have "loc_parts g = [NaN]" by (rule parts_absent)
  then show "update_map (Some g) refs = refs"
    by (simp add: update_map_def Let_def split: option.splits)
next
  assume h: "mapInstance refs = Some m \<and> loc_parts g = [lat, lon] \<and> lat \<noteq> NaN \<and> lon \<noteq> NaN"
  then show "map_option position (markerRef (update_map (Some g) refs)) = Some (lat, lon)"
    by (simp add: update_map_def Let_def split: option.splits)
  from h show "map_option center (mapInstance (update_map (Some g) refs)) = Some (lat, lon)"
    by (simp add: update_map_def Let_def split: option.splits)
  from h show "map_option precisionCircle (mapInstance (update_map (Some g) refs)) =
      Some (Some ((lat, lon), 500))"
    by (simp add: update_map_def Let_def split: option.splits)
qed

theorem map_sync_witness:
  "length (loc_parts (blank\<lparr>loc := Some ''unknown''\<rparr>)) \<noteq> 2 \<and>
   update_map (Some (blank\<lparr>loc := Some ''unknown''\<rparr>))
     (update_map (Some (blank\<lparr>loc := Some ''12.3,-45.6''\<rparr>)) fresh_map) =
     \<lparr>mapInstance = Some \<lparr>center = (Num ''12.3'', Num ''-45.6''), zoom = 12,
                          circles = [((Num ''12.3'', Num ''-45.6''), 500)],
                          precisionCircle = Some ((Num ''12.3'', Num ''-45.6''), 500)\<rparr>,
      markerRef = Some \<lparr>position = (Num ''12.3'', Num ''-45.6''), popup = Some [],
                        popup_open = True\<rparr>\<rparr>"
proof -
  have h: "length (loc_parts (blank\<lparr>loc := Some ''unknown''\<rparr>)) \<noteq> 2"
    by (simp add: parts_unknown)
  show ?thesis
    using h map_sync [of "blank\<lparr>loc := Some ''unknown''\<rparr>"
        "update_map (Some (blank\<lparr>loc := Some ''12.3,-45.6''\<rparr>)) fresh_map"]
    by (simp add: placed)
qed

text \<open>
  C3 as stated fails. After the record at 12.3,-45.6, a record whose \<open>loc\<close> is the word
  \<^verbatim>\<open>unknown\<close> leaves the precision circle on the map. And a \<open>loc\<close> that is not two numbers but
  begins like two, \<^verbatim>\<open>51.5N,0.12W\<close>, is read by its prefixes and moves the marker.
\<close>

theorem map_sync_counterexample:
  "map_option precisionCircle
     (mapInstance (update_map (Some (blank\<lparr>loc := Some ''unknown''\<rparr>))
                     (update_map (Some (blank\<lparr>loc := Some ''12.3,-45.6''\<rparr>)) fresh_map)))
     = Some (Some ((Num ''12.3'', Num ''-45.6''), 500)) \<and>
   map_option position
     (markerRef (update_map (Some (blank\<lparr>loc := Some ''51.5N,0.12W''\<rparr>))
                     (update_map (Some (blank\<lparr>loc := Some ''12.3,-45.6''\<rparr>)) fresh_map)))
     = Some (Num ''51.5'', Num ''0.12'')"
  unfolding placed
  by (simp add: update_map_def parts_unknown parts_prefixes Let_def popup_blank)

end
